theory Spec2Isabelle
  imports Main "HOL-Library.Word" "HOL-Library.Sublist"
begin

unbundle bit_operations_syntax

section \<open>Go strings, bytes and runes\<close>

text \<open>
  A Go string is a sequence of bytes, here a \<open>string\<close> (a list of \<open>char\<close>, each one
  byte); \<open>len(s)\<close> is \<open>length s\<close>, \<open>s[i:]\<close> is \<open>drop i s\<close>, \<open>s[:i]\<close> is
  \<open>take i s\<close>. A \<open>rune\<close> is Go's \<open>int32\<close>: a 32-bit word, read as a signed number
  with \<open>sint\<close> and compared as one with \<open><s\<close>.
\<close>

type_synonym rune = "32 word"
type_synonym byte = "8 word"

definition RuneError :: rune where
  "RuneError = 0xFFFD"

definition byte_at :: "string \<Rightarrow> nat \<Rightarrow> byte" where
  "byte_at s i = of_char (s ! i)"

definition char_of_byte :: "byte \<Rightarrow> char" where
  "char_of_byte b = char_of (unat b)"

subsection \<open>\<open>utf8.DecodeRuneInString\<close>\<close>

text \<open>
  The standard library's decoder, as \<open>unicode/utf8\<close> defines it. The table \<open>first\<close>
  classifies the leading byte: ASCII (\<open>AS\<close>), invalid (\<open>XX\<close>), or the length of the
  sequence with the range accepted for the second byte. Every malformed or truncated
  sequence decodes to \<open>(RuneError, 1)\<close>, the empty string to \<open>(RuneError, 0)\<close>.
\<close>

datatype first_info = AS | XX | SZ nat byte byte

definition first :: "byte \<Rightarrow> first_info" where
  "first b =
     (if b < 0x80 then AS
      else if b < 0xC2 then XX
      else if b < 0xE0 then SZ 2 0x80 0xBF
      else if b = 0xE0 then SZ 3 0xA0 0xBF
      else if b = 0xED then SZ 3 0x80 0x9F
      else if b < 0xF0 then SZ 3 0x80 0xBF
      else if b = 0xF0 then SZ 4 0x90 0xBF
      else if b < 0xF4 then SZ 4 0x80 0xBF
      else if b = 0xF4 then SZ 4 0x80 0x8F
      else XX)"

definition DecodeRuneInString :: "string \<Rightarrow> rune \<times> nat" where
  "DecodeRuneInString s =
     (let n = length s in
      if n < 1 then (RuneError, 0)
      else
        let s0 = byte_at s 0 in
        case first s0 of
          AS \<Rightarrow> (ucast s0, 1)
        | XX \<Rightarrow> (RuneError, 1)
        | SZ sz lo hi \<Rightarrow>
            if n < sz then (RuneError, 1)
            else
              let s1 = byte_at s 1 in
              if s1 < lo \<or> hi < s1 then (RuneError, 1)
              else if sz \<le> 2 then
                (push_bit 6 (ucast (s0 AND 0x1F)) OR ucast (s1 AND 0x3F), 2)
              else
                let s2 = byte_at s 2 in
                if s2 < 0x80 \<or> 0xBF < s2 then (RuneError, 1)
                else if sz \<le> 3 then
                  (push_bit 12 (ucast (s0 AND 0x0F)) OR push_bit 6 (ucast (s1 AND 0x3F))
                     OR ucast (s2 AND 0x3F), 3)
                else
                  let s3 = byte_at s 3 in
                  if s3 < 0x80 \<or> 0xBF < s3 then (RuneError, 1)
                  else
                    (push_bit 18 (ucast (s0 AND 0x07)) OR push_bit 12 (ucast (s1 AND 0x3F))
                       OR push_bit 6 (ucast (s2 AND 0x3F)) OR ucast (s3 AND 0x3F), 4))"

subsection \<open>Conversion of runes to strings\<close>

text \<open>
  Go's conversions \<open>string(r)\<close> and \<open>string([]rune)\<close> encode each rune in UTF-8; a rune
  that is no Unicode scalar value (negative, above \<open>0x10FFFF\<close>, or a surrogate) is
  encoded as \<open>U+FFFD\<close>. The comparisons are those of \<open>uint32(r)\<close>.
\<close>

definition encode3 :: "rune \<Rightarrow> string" where
  "encode3 r =
     [char_of_byte (0xE0 OR ucast (drop_bit 12 r)),
      char_of_byte (0x80 OR (ucast (drop_bit 6 r) AND 0x3F)),
      char_of_byte (0x80 OR (ucast r AND 0x3F))]"

definition encoderune :: "rune \<Rightarrow> string" where
  "encoderune r =
     (if r \<le> 0x7F then [char_of_byte (ucast r)]
      else if r \<le> 0x7FF then
        [char_of_byte (0xC0 OR ucast (drop_bit 6 r)),
         char_of_byte (0x80 OR (ucast r AND 0x3F))]
      else if 0x10FFFF < r \<or> (0xD800 \<le> r \<and> r \<le> 0xDFFF) then encode3 RuneError
      else if r \<le> 0xFFFF then encode3 r
      else
        [char_of_byte (0xF0 OR ucast (drop_bit 18 r)),
         char_of_byte (0x80 OR (ucast (drop_bit 12 r) AND 0x3F)),
         char_of_byte (0x80 OR (ucast (drop_bit 6 r) AND 0x3F)),
         char_of_byte (0x80 OR (ucast r AND 0x3F))])"

definition string_of_runes :: "rune list \<Rightarrow> string" where
  "string_of_runes rs = concat (map encoderune rs)"

subsection \<open>\<open>strings.Index\<close>, \<open>Contains\<close>, \<open>Replace\<close>, \<open>Split\<close>\<close>

text \<open>
  \<open>Index\<close> is the byte offset of the first occurrence of \<open>substr\<close>, \<open>None\<close> for Go's
  \<open>-1\<close>. \<open>Replace\<close> is \<open>strings.Replace(s, old, new, -1)\<close> and \<open>Split\<close> is
  \<open>strings.Split(s, sep)\<close>: both walk the non-overlapping occurrences from the left.
  The program calls them with constant, non-empty \<open>old\<close> and \<open>sep\<close> only, and only that
  case is defined.
\<close>

fun Index :: "string \<Rightarrow> string \<Rightarrow> nat option" where
  "Index [] substr = (if substr = [] then Some 0 else None)"
| "Index (c # s) substr =
     (if prefix substr (c # s) then Some 0 else map_option Suc (Index s substr))"

definition Contains :: "string \<Rightarrow> string \<Rightarrow> bool" where
  "Contains s substr = (Index s substr \<noteq> None)"

lemma Index_bound: "Index s substr = Some j \<Longrightarrow> j + length substr \<le> length s"
proof (induction s arbitrary: j)
  case Nil
  then show ?case by (simp split: if_splits)
next
  case (Cons c s)
  show ?case
  proof (cases "prefix substr (c # s)")
    case True
    with Cons.prems have "j = 0" by simp
    with True show ?thesis by (auto dest: prefix_length_le)
  next
    case False
    with Cons.prems obtain j' where "Index s substr = Some j'" "j = Suc j'" by auto
    with Cons.IH show ?thesis by simp
  qed
qed

function (sequential) Replace :: "string \<Rightarrow> string \<Rightarrow> string \<Rightarrow> string" where
  "Replace s (c # old) new =
     (case Index s (c # old) of
        None \<Rightarrow> s
      | Some j \<Rightarrow> take j s @ new @ Replace (drop (j + length (c # old)) s) (c # old) new)"
  by pat_completeness auto
termination
  by (relation "measure (\<lambda>(s, old, new). length s)") (auto dest: Index_bound)

declare Replace.simps [simp del]

function (sequential) Split :: "string \<Rightarrow> string \<Rightarrow> string list" where
  "Split s (c # sep) =
     (case Index s (c # sep) of
        None \<Rightarrow> [s]
      | Some m \<Rightarrow> take m s # Split (drop (m + length (c # sep)) s) (c # sep))"
  by pat_completeness auto
termination
  by (relation "measure (\<lambda>(s, sep). length s)") (auto dest: Index_bound)

declare Split.simps [simp del]

section \<open>The skeleton engine (confusables.go)\<close>

text \<open>
  \<open>Skeleton\<close> uses two things that are not part of the source: \<open>norm.NFKD.String\<close>
  (package \<open>golang.org/x/text\<close>) and the generated table \<open>confusablesMap\<close>
  (\<open>tables.go\<close>). Both are parameters: \<open>nfkd\<close>, a function on strings, and
  \<open>confusablesMap\<close>, a map from runes to strings.

  The loop \<open>for i, w := 0, 0; i < len(s); i += w\<close> is \<open>Skeleton_loop\<close> on the state
  \<open>(s, i)\<close>; \<open>Skeleton_body\<close> is one pass through its body and returns the new
  \<open>s\<close> with the \<open>w\<close> it has set. The slice \<open>s[i+width:]\<close> panics when
  \<open>i + width\<close> exceeds \<open>len(s)\<close>: that is the branch \<open>Inl\<close>.
\<close>

datatype panic = SliceBoundsOutOfRange

definition Skeleton_body ::
  "(rune \<rightharpoonup> string) \<Rightarrow> string \<Rightarrow> nat \<Rightarrow> panic + (string \<times> nat)" where
  "Skeleton_body confusablesMap s i =
     (case DecodeRuneInString (drop i s) of
        (char, width) \<Rightarrow>
          (case confusablesMap char of
             Some replacement \<Rightarrow>
               if i + width \<le> length s
               then Inr (take i s @ replacement @ drop (i + width) s, length replacement)
               else Inl SliceBoundsOutOfRange
           | None \<Rightarrow> Inr (s, width)))"

lemma first_SZ: "first b = SZ sz lo hi \<Longrightarrow> sz = 2 \<or> sz = 3 \<or> sz = 4"
  by (auto simp: first_def split: if_splits)

lemma DecodeRuneInString_width:
  assumes "s \<noteq> []"
  shows "1 \<le> snd (DecodeRuneInString s) \<and> snd (DecodeRuneInString s) \<le> length s"
proof -
  from assms have n: "0 < length s" by simp
  show ?thesis
  proof (cases "first (byte_at s 0)")
    case AS
    with n show ?thesis
      by (simp add: DecodeRuneInString_def Suc_le_eq)
  next
    case XX
    with n show ?thesis
      by (simp add: DecodeRuneInString_def Suc_le_eq)
  next
    case (SZ sz lo hi)
    from first_SZ [OF SZ] have "sz = 2 \<or> sz = 3 \<or> sz = 4" .
    with SZ n show ?thesis
      by (auto simp: DecodeRuneInString_def Let_def Suc_le_eq)
  qed
qed

lemma DecodeRuneInString_drop:
  assumes "s \<noteq> []" and "(cp, n) = DecodeRuneInString s"
  shows "length (drop n s) < length s"
proof -
  from assms(2) have "snd (DecodeRuneInString s) = n"
    by (simp add: assms(2) [symmetric])
  with DecodeRuneInString_width [OF assms(1)] assms(1) show ?thesis
    by simp
qed

lemma Skeleton_body_total:
  assumes "i < length s"
  shows "\<exists>s' w. Skeleton_body cm s i = Inr (s', w) \<and>
           length s' - (i + w) = length s - i - snd (DecodeRuneInString (drop i s)) \<and>
           i + w \<le> length s'"
proof -
  from assms have ne: "drop i s \<noteq> []" by simp
  obtain char width where d: "DecodeRuneInString (drop i s) = (char, width)"
    by (cases "DecodeRuneInString (drop i s)")
  from DecodeRuneInString_width [OF ne] d assms
  have w: "1 \<le> width" "i + width \<le> length s" by auto
  show ?thesis
  proof (cases "cm char")
    case None
    with d w show ?thesis by (simp add: Skeleton_body_def)
  next
    case (Some r)
    from assms have "length (take i s) = i" by simp
    with Some d w assms show ?thesis by (simp add: Skeleton_body_def) arith
  qed
qed

lemma Skeleton_body_decreases:
  assumes "i < length s" and "Skeleton_body cm s i = Inr (s', w)"
  shows "length s' - (i + w) < length s - i"
proof -
  from assms(1) have "drop i s \<noteq> []" by simp
  from DecodeRuneInString_width [OF this]
  have "1 \<le> snd (DecodeRuneInString (drop i s))" by simp
  with Skeleton_body_total [OF assms(1), of cm] assms show ?thesis by auto
qed

function Skeleton_loop :: "(rune \<rightharpoonup> string) \<Rightarrow> string \<Rightarrow> nat \<Rightarrow> panic + string" where
  "Skeleton_loop confusablesMap s i =
     (if i < length s then
        (case Skeleton_body confusablesMap s i of
           Inl e \<Rightarrow> Inl e
         | Inr (s', w) \<Rightarrow> Skeleton_loop confusablesMap s' (i + w))
      else Inr s)"
  by pat_completeness auto
termination
  by (relation "measure (\<lambda>(cm, s, i). length s - i)") (auto dest: Skeleton_body_decreases)

declare Skeleton_loop.simps [simp del]

definition Skeleton ::
  "(string \<Rightarrow> string) \<Rightarrow> (rune \<rightharpoonup> string) \<Rightarrow> string \<Rightarrow> panic + string" where
  "Skeleton nfkd confusablesMap s =
     (case Skeleton_loop confusablesMap (nfkd s) 0 of
        Inl e \<Rightarrow> Inl e
      | Inr s' \<Rightarrow> Inr (nfkd s'))"

text \<open>The number of passes through the loop body, counted along the same recursion.\<close>

function Skeleton_iterations :: "(rune \<rightharpoonup> string) \<Rightarrow> string \<Rightarrow> nat \<Rightarrow> nat" where
  "Skeleton_iterations confusablesMap s i =
     (if i < length s then
        (case Skeleton_body confusablesMap s i of
           Inl e \<Rightarrow> 1
         | Inr (s', w) \<Rightarrow> Suc (Skeleton_iterations confusablesMap s' (i + w)))
      else 0)"
  by pat_completeness auto
termination
  by (relation "measure (\<lambda>(cm, s, i). length s - i)") (auto dest: Skeleton_body_decreases)

declare Skeleton_iterations.simps [simp del]

text \<open>
  The substitution step as the specification describes it, on the intermediate string
  itself: every code point is decoded in turn; a code point that is a key of the map
  contributes its replacement, any other one its own bytes, and the scan goes on behind
  the code point, so that a replacement is never scanned again.
\<close>

function substitute_spec :: "(rune \<rightharpoonup> string) \<Rightarrow> string \<Rightarrow> string" where
  "substitute_spec m s =
     (if s = [] then []
      else
        (case DecodeRuneInString s of
           (cp, n) \<Rightarrow>
             (case m cp of Some r \<Rightarrow> r | None \<Rightarrow> take n s) @ substitute_spec m (drop n s)))"
  by pat_completeness auto
termination
  by (relation "measure (\<lambda>(m, s). length s)") (auto dest: DecodeRuneInString_drop)

declare substitute_spec.simps [simp del]

text \<open>No code point of \<open>s\<close>, as the scan decodes it, is a key of the map.\<close>

function has_no_key :: "(rune \<rightharpoonup> string) \<Rightarrow> string \<Rightarrow> bool" where
  "has_no_key m s =
     (if s = [] then True
      else
        (case DecodeRuneInString s of
           (cp, n) \<Rightarrow> m cp = None \<and> has_no_key m (drop n s)))"
  by pat_completeness auto
termination
  by (relation "measure (\<lambda>(m, s). length s)") (auto dest: DecodeRuneInString_drop)

declare has_no_key.simps [simp del]

text \<open>
  NFKD leaves a string of ASCII bytes as it is. \<open>nfkd_ascii\<close> stands for
  \<open>norm.NFKD.String\<close> in the concrete examples below, all of which are ASCII strings.
\<close>

definition nfkd_ascii :: "string \<Rightarrow> string" where
  "nfkd_ascii s = s"

section \<open>The table builder (maketables.go)\<close>

subsection \<open>\<open>strconv.ParseUint(s, 16, 64)\<close>\<close>

text \<open>
  The standard library's parser at base 16 and 64 bits: the empty string, a sign, a
  prefix or any byte that is no hexadecimal digit is a syntax error; a value that does
  not fit 64 bits is a range error. \<open>lower\<close> is its \<open>c | ('x' - 'X')\<close>, the cutoff
  \<open>2^60\<close> is \<open>maxUint64/16 + 1\<close>.
\<close>

datatype NumError = ErrSyntax | ErrRange

definition lower :: "byte \<Rightarrow> byte" where
  "lower c = c OR 0x20"

fun ParseUint_digits :: "string \<Rightarrow> 64 word \<Rightarrow> NumError + 64 word" where
  "ParseUint_digits [] n = Inr n"
| "ParseUint_digits (ch # cs) n =
     (let c = (of_char ch :: byte) in
      if \<not> ((0x30 \<le> c \<and> c \<le> 0x39) \<or> (0x61 \<le> lower c \<and> lower c \<le> 0x7A))
      then Inl ErrSyntax
      else
        let d = (if 0x30 \<le> c \<and> c \<le> 0x39 then c - 0x30 else lower c - 0x61 + 10) in
        if d \<ge> 16 then Inl ErrSyntax
        else if n \<ge> 0x1000000000000000 then Inl ErrRange
        else
          let n16 = n * 16; n1 = n16 + ucast d in
          if n1 < n16 \<or> n1 > 0xFFFFFFFFFFFFFFFF then Inl ErrRange
          else ParseUint_digits cs n1)"

definition ParseUint16 :: "string \<Rightarrow> NumError + 64 word" where
  "ParseUint16 s = (if s = [] then Inl ErrSyntax else ParseUint_digits s 0)"

subsection \<open>\<open>parsePoint\<close> and \<open>parseCharacter\<close>\<close>

text \<open>
  \<open>log.Fatalf\<close> ends the process: a call is a value \<open>Inl\<close> of type \<open>fatal\<close>, one
  constructor for each call site. The argument \<open>line\<close> of \<open>parsePoint\<close> only feeds the
  message and is left out. \<open>rune(x)\<close> keeps the low 32 bits of the parsed \<open>uint64\<close>
  (\<open>ucast\<close>); \<open>point > MaxChar\<close> compares signed numbers.
\<close>

datatype fatal =
    FatalParse NumError
  | FatalUnknownRune
  | FatalAboveMaxChar
  | FatalFieldCount nat
  | FatalFormat

definition MaxChar :: rune where
  "MaxChar = 0x10FFFF"

definition NumField :: nat where
  "NumField = 3"

definition parsePoint :: "string \<Rightarrow> fatal + rune" where
  "parsePoint pointString =
     (case ParseUint16 pointString of
        Inl err \<Rightarrow> Inl (FatalParse err)
      | Inr x \<Rightarrow>
          let point = (ucast x :: rune) in
          if point = 0 then Inl FatalUnknownRune
          else if MaxChar <s point then Inl FatalAboveMaxChar
          else Inr point)"

text \<open>The struct \<open>C\<close>: one line of the data file, source rune and target runes.\<close>

datatype C = C (k: rune) (v: "rune list")

text \<open>The loop over \<open>targetCodePoints\<close>, appending to \<open>targetRune\<close>.\<close>

fun parseTargets :: "string list \<Rightarrow> rune list \<Rightarrow> fatal + rune list" where
  "parseTargets [] targetRune = Inr targetRune"
| "parseTargets (targetCP # targetCodePoints) targetRune =
     (case parsePoint targetCP of
        Inl e \<Rightarrow> Inl e
      | Inr p \<Rightarrow> parseTargets targetCodePoints (targetRune @ [p]))"

text \<open>The field separator \<open>" ;\t"\<close>: space, semicolon, tab.\<close>

definition field_sep :: string where
  "field_sep = [CHR '' '', CHR '';'', CHR 0x09]"

text \<open>
  \<open>parseCharacter\<close> appends to the global slice \<open>confusables\<close>: the slice is passed in
  and returned. The field indices \<open>CSourceCodePoint\<close> and \<open>CTargetCodePoint\<close> are
  \<open>0\<close> and \<open>1\<close>.
\<close>

definition parseCharacter :: "string \<Rightarrow> C list \<Rightarrow> fatal + C list" where
  "parseCharacter line confusables =
     (if length line = 0 \<or> line ! 0 = CHR ''#'' then Inr confusables
      else
        let field = Split line field_sep in
        if length field \<noteq> NumField then Inl (FatalFieldCount (length field))
        else if \<not> prefix ''MA'' (field ! 2) then Inr confusables
        else
          (case parsePoint (field ! 0) of
             Inl e \<Rightarrow> Inl e
           | Inr sourceRune \<Rightarrow>
               (case parseTargets (Split (field ! 1) '' '') [] of
                  Inl e \<Rightarrow> Inl e
                | Inr targetRune \<Rightarrow> Inr (confusables @ [C sourceRune targetRune]))))"

subsection \<open>\<open>parseHeader\<close> and \<open>loadUnicodeData\<close>\<close>

text \<open>
  The data file is the list of lines that the scanner yields. \<open>parseHeader\<close> appends
  to the global \<open>originalHeader\<close>, passed in and returned with the result.
  \<open>header_loop\<close> is the first loop of \<open>loadUnicodeData\<close>: it takes lines from the
  scanner until \<open>parseHeader\<close> returns true and leaves the lines behind that one.
  \<open>character_loop\<close> is the second loop, over the lines that are left.
\<close>

definition BOM :: string where
  "BOM = [CHR 0xEF, CHR 0xBB, CHR 0xBF]"

definition originalHeader_init :: string where
  "originalHeader_init =
     [CHR 0x0A] @ ''// Following is the original header of the source confusables.txt file''
       @ [CHR 0x0A] @ ''//'' @ [CHR 0x0A]"

definition parseHeader :: "string \<Rightarrow> string \<Rightarrow> bool \<times> string" where
  "parseHeader line0 originalHeader =
     (let line = (if length line0 > 3 \<and> take 3 line0 = BOM then drop 3 line0 else line0) in
      if length line = 0 \<or> line ! 0 \<noteq> CHR ''#'' then (True, originalHeader)
      else (False, originalHeader @ ''//'' @ drop 1 line @ [CHR 0x0A]))"

fun header_loop :: "string list \<Rightarrow> string \<Rightarrow> string list \<times> string" where
  "header_loop [] originalHeader = ([], originalHeader)"
| "header_loop (line # lines) originalHeader =
     (case parseHeader line originalHeader of
        (True, h) \<Rightarrow> (lines, h)
      | (False, h) \<Rightarrow> header_loop lines h)"

fun character_loop :: "string list \<Rightarrow> C list \<Rightarrow> fatal + C list" where
  "character_loop [] confusables = Inr confusables"
| "character_loop (line # lines) confusables =
     (case parseCharacter line confusables of
        Inl e \<Rightarrow> Inl e
      | Inr cs \<Rightarrow> character_loop lines cs)"

definition loadUnicodeData :: "string list \<Rightarrow> fatal + (string \<times> C list)" where
  "loadUnicodeData lines =
     (case header_loop lines originalHeader_init of
        (rest, originalHeader) \<Rightarrow>
          (case character_loop rest [] of
             Inl e \<Rightarrow> Inl e
           | Inr confusables \<Rightarrow> Inr (originalHeader, confusables)))"

subsection \<open>\<open>makeTables\<close>\<close>

text \<open>
  The string literals of the override rules, as the bytes of their UTF-8 encoding:
  \<open>U+03C0\<close> (pi), \<open>U+03BC\<close> (mu), \<open>U+03C7\<close> (chi), \<open>U+0280\<close> (small capital R) and
  \<open>U+12AE\<close> (Ethiopic ko).
\<close>

definition str_pi :: string where
  "str_pi = [CHR 0xCF, CHR 0x80]"

definition str_mu :: string where
  "str_mu = [CHR 0xCE, CHR 0xBC]"

definition str_chi :: string where
  "str_chi = [CHR 0xCF, CHR 0x87]"

definition str_small_capital_R :: string where
  "str_small_capital_R = [CHR 0xCA, CHR 0x80]"

definition str_ethiopic_ko :: string where
  "str_ethiopic_ko = [CHR 0xE1, CHR 0x8A, CHR 0xAE]"

text \<open>
  \<open>makeTables\<close> writes one line \<open>0x<key>: "<replacement>",\<close> of a Go map literal for
  each entry. The output \<open>out\<close> is modelled as the list of the entries written, in
  the order written; \<open>emit\<close> is \<open>out += fmt.Sprintf("0x%.8X: %+q,\n", key, q)\<close>.
\<close>

definition emit :: "(rune \<times> string) list \<Rightarrow> rune \<Rightarrow> string \<Rightarrow> (rune \<times> string) list" where
  "emit out key q = out @ [(key, q)]"

fun makeTables_loop :: "C list \<Rightarrow> (rune \<times> string) list \<Rightarrow> (rune \<times> string) list" where
  "makeTables_loop [] out = out"
| "makeTables_loop (c # confusables) out =
     (if Contains (string_of_runes (v c)) ''rn'' then
        (if encoderune (k c) \<noteq> ''m''
         then makeTables_loop confusables
                (emit out (k c) (Replace (string_of_runes (v c)) ''rn'' ''m''))
         else makeTables_loop confusables out)
      else if Contains (string_of_runes (v c)) str_pi then
        makeTables_loop confusables
          (emit out (k c) (Replace (string_of_runes (v c)) str_pi ''n''))
      else if Contains (string_of_runes (v c)) str_mu then
        makeTables_loop confusables
          (emit out (k c) (Replace (string_of_runes (v c)) str_mu ''u''))
      else if Contains (string_of_runes (v c)) str_chi then
        makeTables_loop confusables
          (emit out (k c) (Replace (string_of_runes (v c)) str_chi ''x''))
      else if Contains (string_of_runes (v c)) str_small_capital_R then
        makeTables_loop confusables
          (emit out (k c) (Replace (string_of_runes (v c)) str_small_capital_R ''R''))
      else if Contains (string_of_runes (v c)) str_ethiopic_ko then
        makeTables_loop confusables
          (emit out (k c) (Replace (string_of_runes (v c)) str_ethiopic_ko ''r''))
      else makeTables_loop confusables (emit out (k c) (string_of_runes (v c))))"

text \<open>The lines written behind the loop, in their order in the source.\<close>

definition supplementary :: "(rune \<times> string) list" where
  "supplementary =
     [(0x16D2, ''B''), (0xFF42, ''b''), (0xFF24, ''D''), (0x1E0D, ''d''), (0xFF44, ''d''),
      (0xFF26, ''F''), (0xFF46, ''f''), (0xFF27, ''G''), (0xFF4B, ''k''), (0xFF2C, ''L''),
      (0xFF4D, ''m''), (0x0274, ''N''), (0xFF4E, ''n''), (0x10AD, ''Q''), (0x10B3, ''Q''),
      (0xFF31, ''Q''), (0xFF51, ''q''), (0xFF32, ''R''), (0x0280, ''R''), (0x16B1, ''R''),
      (0xFF52, ''r''), (0x10BD, ''S''), (0xFF54, ''t''), (0x0531, ''U''), (0xFF35, ''U''),
      (0xFF55, ''u''), (0xFF36, ''V''), (0xFF37, ''W''), (0xFF57, ''w''), (0xFF5A, ''z''),
      (0x03C0, ''n'')]"

definition makeTables :: "C list \<Rightarrow> (rune \<times> string) list" where
  "makeTables confusables =
     foldl (\<lambda>out (key, q). emit out key q) (makeTables_loop confusables []) supplementary"

text \<open>
  The generated file declares \<open>confusablesMap\<close> as a map literal of these entries. The
  Go compiler refuses a map literal with two equal constant keys, so there is a table
  only when the keys written are distinct.
\<close>

definition confusablesMap_of :: "(rune \<times> string) list \<Rightarrow> (rune \<rightharpoonup> string) option" where
  "confusablesMap_of entries =
     (if distinct (map fst entries) then Some (map_of entries) else None)"

text \<open>
  The source's \<open>makeTables\<close> ends with the call of \<open>WriteGoFile\<close>, which formats the
  text written with \<open>format.Source\<close> (package \<open>go/format\<close>) and calls \<open>log.Fatalf\<close>
  when that fails; it fails, for one, when a key is negative and so printed with a
  sign. \<open>format.Source\<close> is not part of the source and is a parameter:
  \<open>format_Source originalHeader out\<close> says whether it accepts the text made of the
  header and the entries written. \<open>makeTables\<close> above is the source's function up to
  that call. Creating and writing the file are outside the model.
\<close>

definition WriteGoFile ::
  "(string \<Rightarrow> (rune \<times> string) list \<Rightarrow> bool) \<Rightarrow> string \<Rightarrow> (rune \<times> string) list
     \<Rightarrow> fatal + (rune \<times> string) list" where
  "WriteGoFile format_Source originalHeader out =
     (if format_Source originalHeader out then Inr out else Inl FatalFormat)"

text \<open>\<open>main\<close>: load the data, make the table, write it.\<close>

definition main ::
  "(string \<Rightarrow> (rune \<times> string) list \<Rightarrow> bool) \<Rightarrow> string list
     \<Rightarrow> fatal + (rune \<times> string) list" where
  "main format_Source lines =
     (case loadUnicodeData lines of
        Inl e \<Rightarrow> Inl e
      | Inr (originalHeader, confusables) \<Rightarrow>
          WriteGoFile format_Source originalHeader (makeTables confusables))"

text \<open>
  The override rules as the specification lists them: an ordered list of pairs
  (substring looked for, its replacement), the first rule whose substring occurs in
  the decoded target decides, and the rule for \<open>rn\<close> drops the entry of the source
  \<open>m\<close>.
\<close>

definition override_rules :: "(string \<times> string) list" where
  "override_rules =
     [(''rn'', ''m''), (str_pi, ''n''), (str_mu, ''u''), (str_chi, ''x''),
      (str_small_capital_R, ''R''), (str_ethiopic_ko, ''r'')]"

fun first_match :: "(string \<times> string) list \<Rightarrow> string \<Rightarrow> (string \<times> string) option" where
  "first_match [] target = None"
| "first_match ((old, new) # rules) target =
     (if Contains target old then Some (old, new) else first_match rules target)"

definition buildMap_entry_spec :: "C \<Rightarrow> (rune \<times> string) list" where
  "buildMap_entry_spec c =
     (let target = string_of_runes (v c) in
      case first_match override_rules target of
        None \<Rightarrow> [(k c, target)]
      | Some (old, new) \<Rightarrow>
          if old = ''rn'' \<and> encoderune (k c) = ''m'' then []
          else [(k c, Replace target old new)])"

definition buildMap_spec :: "C list \<Rightarrow> (rune \<times> string) list" where
  "buildMap_spec entries = concat (map buildMap_entry_spec entries)"



subsection \<open>Example data\<close>

text \<open>
  A line of the data file with its three fields, and a data file of an empty line (the
  end of an empty header) and two lines: \<open>a\<close> is confusable with \<open>b\<close>,
  \<open>b\<close> with \<open>c\<close>.
\<close>

definition data_line :: "string \<Rightarrow> string \<Rightarrow> string \<Rightarrow> string" where
  "data_line src tgts tag = src @ field_sep @ tgts @ field_sep @ tag"

definition chain_data :: "string list" where
  "chain_data = [[], data_line ''0061'' ''0062'' ''MA'', data_line ''0062'' ''0063'' ''MA'']"

definition chain_entries :: "C list" where
  "chain_entries = [C 0x61 [0x62], C 0x62 [0x63]]"

text \<open>
  A data file with a header, two lines of class \<open>MA\<close>, the second with the target
  \<open>110000\<close>.
\<close>

definition bad_data :: "string list" where
  "bad_data =
     [''# header'', [], data_line ''0061'' ''0062'' ''MA'', data_line ''0062'' ''110000'' ''MA'']"

text \<open>
  A code point field that violates the format: it is no hexadecimal number of at most 64
  bits, or it is zero, or it is above \<open>0x10FFFF\<close> and fits a rune (it is below
  \<open>2^31\<close>).
\<close>

definition point_violation :: "string \<Rightarrow> bool" where
  "point_violation pointString =
     (case ParseUint16 pointString of
        Inl err \<Rightarrow> True
      | Inr x \<Rightarrow> x = 0 \<or> (0x10FFFF < x \<and> x < 0x80000000))"

section \<open>Properties of the skeleton engine\<close>

lemma Skeleton_loop_substitute:
  "i \<le> length s \<Longrightarrow> Skeleton_loop cm s i = Inr (take i s @ substitute_spec cm (drop i s))"
proof (induction cm s i rule: Skeleton_loop.induct)
  case (1 cm s i)
  show ?case
  proof (cases "i < length s")
    case False
    with "1.prems" have "i = length s" by simp
    then show ?thesis
      by (subst Skeleton_loop.simps, subst substitute_spec.simps) simp
  next
    case True
    then have ne: "drop i s \<noteq> []" by simp
    obtain char width where d: "DecodeRuneInString (drop i s) = (char, width)"
      by (cases "DecodeRuneInString (drop i s)")
    from DecodeRuneInString_width [OF ne] d True
    have w: "1 \<le> width" "i + width \<le> length s" by auto
    show ?thesis
    proof (cases "cm char")
      case None
      with d have b: "Skeleton_body cm s i = Inr (s, width)"
        by (simp add: Skeleton_body_def)
      from "1.IH" [OF True b refl] w
      have "Skeleton_loop cm s (i + width) =
              Inr (take (i + width) s @ substitute_spec cm (drop (i + width) s))"
        by simp
      moreover have "take (i + width) s = take i s @ take width (drop i s)"
        by (simp add: take_add)
      moreover have "substitute_spec cm (drop i s) =
                       take width (drop i s) @ substitute_spec cm (drop width (drop i s))"
        using ne d None by (subst substitute_spec.simps) simp
      ultimately show ?thesis
        using True b by (subst Skeleton_loop.simps) (simp add: add.commute)
    next
      case (Some r)
      let ?s' = "take i s @ r @ drop (i + width) s"
      from Some d w have b: "Skeleton_body cm s i = Inr (?s', length r)"
        by (simp add: Skeleton_body_def)
      from True have li: "length (take i s) = i" by simp
      from "1.IH" [OF True b refl] True
      have "Skeleton_loop cm ?s' (i + length r) =
              Inr (take (i + length r) ?s' @ substitute_spec cm (drop (i + length r) ?s'))"
        by simp
      moreover have "take (i + length r) ?s' = take i s @ r"
        using li by (simp add: take_add)
      moreover have "drop (i + length r) ?s' = drop (i + width) s"
        using li by (simp add: drop_append)
      moreover have "substitute_spec cm (drop i s) =
                       r @ substitute_spec cm (drop width (drop i s))"
        using ne d Some by (subst substitute_spec.simps) simp
      ultimately show ?thesis
        using True b by (subst Skeleton_loop.simps) (simp add: add.commute)
    qed
  qed
qed

lemma Skeleton_substitute:
  "Skeleton nfkd cm s = Inr (nfkd (substitute_spec cm (nfkd s)))"
  by (simp add: Skeleton_def Skeleton_loop_substitute)

lemma Skeleton_iterations_le: "Skeleton_iterations cm s i \<le> length s - i"
proof (induction cm s i rule: Skeleton_iterations.induct)
  case (1 cm s i)
  show ?case
  proof (cases "i < length s")
    case False
    then show ?thesis by (subst Skeleton_iterations.simps) simp
  next
    case True
    from Skeleton_body_total [OF True, of cm] obtain s' w where
      b: "Skeleton_body cm s i = Inr (s', w)" and
      l: "length s' - (i + w) = length s - i - snd (DecodeRuneInString (drop i s))"
      by blast
    from True have "drop i s \<noteq> []" by simp
    from DecodeRuneInString_width [OF this]
    have "1 \<le> snd (DecodeRuneInString (drop i s))" by simp
    with l True have "Suc (length s' - (i + w)) \<le> length s - i" by simp
    with "1.IH" [OF True b refl] have "Suc (Skeleton_iterations cm s' (i + w)) \<le> length s - i"
      by simp
    with True b show ?thesis by (subst Skeleton_iterations.simps) simp
  qed
qed

lemma Skeleton_loop_returns: "\<exists>r. Skeleton_loop cm s i = Inr r"
proof (induction cm s i rule: Skeleton_loop.induct)
  case (1 cm s i)
  show ?case
  proof (cases "i < length s")
    case False
    then show ?thesis by (subst Skeleton_loop.simps) simp
  next
    case True
    from Skeleton_body_total [OF True, of cm] obtain s' w where
      b: "Skeleton_body cm s i = Inr (s', w)" by blast
    from "1.IH" [OF True b refl] obtain r where "Skeleton_loop cm s' (i + w) = Inr r" ..
    with True b show ?thesis by (subst Skeleton_loop.simps) simp
  qed
qed

text \<open>
  The loop on code points of two bytes: pi (\<open>U+03C0\<close>) is a key and is replaced
  by \<open>n\<close>, mu (\<open>U+03BC\<close>) is no key and keeps its two bytes.
\<close>

lemma Skeleton_loop_example:
  "Skeleton_loop [0x03C0 \<mapsto> ''n''] (''a'' @ str_pi @ str_mu @ ''b'') 0 =
     Inr (''an'' @ str_mu @ ''b'')"
  by (simp add: Skeleton_loop.simps Skeleton_body_def DecodeRuneInString_def first_def
      byte_at_def str_pi_def str_mu_def)

text \<open>
  Claim C1. For every input string, \<open>Skeleton\<close> returns the NFKD form of the
  substituted NFKD form of the input: the loop, which rewrites the string in place and
  moves its index behind each replacement, computes \<open>substitute_spec\<close> on the
  intermediate string, where each code point that is a key of the map is replaced by
  its replacement and every other code point is kept, from left to right.
\<close>
theorem Skeleton_is_normalize_substitute_normalize:
  "Skeleton nfkd confusablesMap s =
     Inr (nfkd (substitute_spec confusablesMap (nfkd s)))"
proof -
  have "Skeleton_loop confusablesMap (nfkd s) 0 =
          Inr (substitute_spec confusablesMap (nfkd s))"
    using Skeleton_loop_substitute [of 0 "nfkd s" confusablesMap] by simp
  then show ?thesis
    by (simp add: Skeleton_def)
qed

text \<open>
  Claim C8. \<open>Skeleton\<close> is total: for every input, every map and every NFKD function
  it returns a string and never panics; and when NFKD maps the empty string to itself,
  as \<open>norm.NFKD.String\<close> does, the skeleton of the empty string is the empty string.
\<close>
theorem Skeleton_total:
  "(\<exists>r. Skeleton nfkd confusablesMap s = Inr r) \<and>
   (nfkd [] = [] \<longrightarrow> Skeleton nfkd confusablesMap [] = Inr [])"
proof
  show "\<exists>r. Skeleton nfkd confusablesMap s = Inr r"
    by (simp add: Skeleton_substitute)
  show "nfkd [] = [] \<longrightarrow> Skeleton nfkd confusablesMap [] = Inr []"
    by (simp add: Skeleton_def Skeleton_loop.simps)
qed

text \<open>The same at the empty string and at a string without confusable characters.\<close>

theorem Skeleton_total_witness:
  "nfkd_ascii [] = [] \<and> Skeleton nfkd_ascii [0x61 \<mapsto> ''b''] [] = Inr [] \<and>
   Skeleton nfkd_ascii [0x61 \<mapsto> ''b''] ''scope'' = Inr ''scope''"
proof -
  have e: "nfkd_ascii [] = []" by (simp add: nfkd_ascii_def)
  from Skeleton_total [of nfkd_ascii "[0x61 \<mapsto> ''b'']" "''scope''"] e
  have "Skeleton nfkd_ascii [0x61 \<mapsto> ''b''] [] = Inr []" by blast
  moreover have "Skeleton nfkd_ascii [0x61 \<mapsto> ''b''] ''scope'' = Inr ''scope''"
    by (simp add: Skeleton_def nfkd_ascii_def Skeleton_loop.simps Skeleton_body_def
        DecodeRuneInString_def first_def byte_at_def)
  ultimately show ?thesis using e by simp
qed

text \<open>
  Claim C10. The substitution loop returns for every string, index and map, also when
  a replacement is empty or shorter than the code point it replaces. In each pass
  through the body the length of the part not yet scanned, \<open>length s - i\<close>, goes
  down by the width of the code point decoded, which is at least one; so the number of
  passes is at most the length of the part not yet scanned, and for the whole loop at
  most the byte length of the normalised input.
\<close>
theorem Skeleton_loop_terminates:
  "(\<exists>r. Skeleton_loop confusablesMap s i = Inr r) \<and>
   Skeleton_iterations confusablesMap s i \<le> length s - i \<and>
   Skeleton_iterations confusablesMap (nfkd s0) 0 \<le> length (nfkd s0) \<and>
   (i < length s \<longrightarrow>
      (\<exists>s' w. Skeleton_body confusablesMap s i = Inr (s', w) \<and>
         1 \<le> snd (DecodeRuneInString (drop i s)) \<and>
         length s' - (i + w) = length s - i - snd (DecodeRuneInString (drop i s))))"
proof (intro conjI impI)
  show "\<exists>r. Skeleton_loop confusablesMap s i = Inr r"
    by (rule Skeleton_loop_returns)
  show "Skeleton_iterations confusablesMap s i \<le> length s - i"
    by (rule Skeleton_iterations_le)
  show "Skeleton_iterations confusablesMap (nfkd s0) 0 \<le> length (nfkd s0)"
    using Skeleton_iterations_le [of confusablesMap "nfkd s0" 0] by simp
next
  assume lt: "i < length s"
  then have "drop i s \<noteq> []" by simp
  from DecodeRuneInString_width [OF this]
  have "1 \<le> snd (DecodeRuneInString (drop i s))" by simp
  with Skeleton_body_total [OF lt, of confusablesMap]
  show "\<exists>s' w. Skeleton_body confusablesMap s i = Inr (s', w) \<and>
         1 \<le> snd (DecodeRuneInString (drop i s)) \<and>
         length s' - (i + w) = length s - i - snd (DecodeRuneInString (drop i s))"
    by blast
qed

text \<open>A map with an empty replacement, on the string \<open>ab\<close>.\<close>

theorem Skeleton_loop_terminates_witness:
  "(0::nat) < length ''ab'' \<and>
   Skeleton_loop [0x61 \<mapsto> ''''] ''ab'' 0 = Inr ''b'' \<and>
   Skeleton_iterations [0x61 \<mapsto> ''''] ''ab'' 0 \<le> 2 \<and>
   Skeleton_body [0x61 \<mapsto> ''''] ''ab'' 0 = Inr (''b'', 0)"
proof -
  have l: "(0::nat) < length ''ab''" by simp
  from Skeleton_loop_terminates [of "[0x61 \<mapsto> '''']" "''ab''" 0 nfkd_ascii "''ab''"] l
  have "Skeleton_iterations [0x61 \<mapsto> ''''] ''ab'' 0 \<le> 2" by simp
  moreover have "Skeleton_body [0x61 \<mapsto> ''''] ''ab'' 0 = Inr (''b'', 0)"
    by (simp add: Skeleton_body_def DecodeRuneInString_def first_def byte_at_def)
  moreover have "Skeleton_loop [0x61 \<mapsto> ''''] ''ab'' 0 = Inr ''b''"
    by (simp add: Skeleton_loop.simps Skeleton_body_def DecodeRuneInString_def first_def byte_at_def)
  ultimately show ?thesis by simp
qed

text \<open>A string without keys is left as it is by the substitution.\<close>

lemma substitute_spec_no_key: "has_no_key m s \<Longrightarrow> substitute_spec m s = s"
proof (induction m s rule: substitute_spec.induct)
  case (1 m s)
  show ?case
  proof (cases "s = []")
    case True
    then show ?thesis by (subst substitute_spec.simps) simp
  next
    case False
    obtain cp n where d: "DecodeRuneInString s = (cp, n)"
      by (cases "DecodeRuneInString s")
    from "1.prems" False d have nk: "m cp = None" and rest: "has_no_key m (drop n s)"
      by (subst (asm) has_no_key.simps, simp)+
    from "1.IH" [OF False d [symmetric] rest]
    have "substitute_spec m (drop n s) = drop n s" .
    with False d nk show ?thesis
      by (subst substitute_spec.simps) simp
  qed
qed

section \<open>Tables written by the builder, and idempotence\<close>

lemma foldl_emit: "foldl (\<lambda>out (key, q). emit out key q) out es = out @ es"
  by (induction es arbitrary: out) (auto simp: emit_def)

lemma makeTables_append: "makeTables cs = makeTables_loop cs [] @ supplementary"
  by (simp add: makeTables_def foldl_emit)

lemma loadUnicodeData_chain_data:
  "loadUnicodeData chain_data = Inr (originalHeader_init, chain_entries)"
  by (simp add: chain_data_def data_line_def chain_entries_def loadUnicodeData_def
      parseHeader_def parseCharacter_def Split.simps field_sep_def NumField_def parsePoint_def
      ParseUint16_def lower_def MaxChar_def word_le_nat_alt)

text \<open>
  The build of \<open>chain_data\<close> ends as \<open>WriteGoFile\<close> ends on the table of
  \<open>chain_entries\<close>. A line with the source \<open>FFFFFFFF\<close> is loaded as an entry with the
  key \<open>0xFFFFFFFF\<close>, the rune \<open>-1\<close>, and the build ends as \<open>WriteGoFile\<close> ends on a
  table with that key.
\<close>

lemma main_chain_data:
  "main format_Source chain_data =
     WriteGoFile format_Source originalHeader_init (makeTables chain_entries)"
  by (simp add: main_def loadUnicodeData_chain_data)

lemma main_negative_key:
  "main format_Source [[], data_line ''FFFFFFFF'' ''0042'' ''MA''] =
     WriteGoFile format_Source originalHeader_init (makeTables [C 0xFFFFFFFF [0x42]])"
  by (simp add: main_def data_line_def loadUnicodeData_def parseHeader_def parseCharacter_def
      Split.simps field_sep_def NumField_def parsePoint_def ParseUint16_def lower_def
      MaxChar_def word_le_nat_alt word_less_nat_alt word_sless_alt)

lemma makeTables_chain:
  "makeTables chain_entries = (0x61, ''b'') # (0x62, ''c'') # supplementary"
  by (simp add: makeTables_append chain_entries_def emit_def Contains_def string_of_runes_def
      encoderune_def char_of_byte_def char_of_eq_iff str_pi_def str_mu_def str_chi_def
      str_small_capital_R_def str_ethiopic_ko_def)

text \<open>
  Claim C2, as stated, fails. The builder loads the entries \<open>chain_entries\<close> from the
  data file \<open>chain_data\<close> and makes of them a table that maps \<open>a\<close> to \<open>b\<close> and
  \<open>b\<close> to \<open>c\<close>; with it the skeleton of \<open>a\<close> is \<open>b\<close>, and the skeleton of
  \<open>b\<close> is \<open>c\<close>: the loop does not scan a replacement again.
\<close>

theorem Skeleton_not_idempotent:
  "loadUnicodeData chain_data = Inr (originalHeader_init, chain_entries) \<and>
   confusablesMap_of (makeTables chain_entries) = Some (map_of (makeTables chain_entries)) \<and>
   Skeleton nfkd_ascii (map_of (makeTables chain_entries)) ''a'' = Inr ''b'' \<and>
   Skeleton nfkd_ascii (map_of (makeTables chain_entries)) ''b'' = Inr ''c'' \<and>
   Skeleton nfkd_ascii (map_of (makeTables chain_entries)) ''b'' \<noteq> Inr ''b''"
proof (intro conjI)
  show "loadUnicodeData chain_data = Inr (originalHeader_init, chain_entries)"
    by (rule loadUnicodeData_chain_data)
  show "confusablesMap_of (makeTables chain_entries) = Some (map_of (makeTables chain_entries))"
    by (simp add: confusablesMap_of_def makeTables_chain supplementary_def)
  show "Skeleton nfkd_ascii (map_of (makeTables chain_entries)) ''a'' = Inr ''b''"
    by (simp add: makeTables_chain supplementary_def Skeleton_def nfkd_ascii_def
        Skeleton_loop.simps Skeleton_body_def DecodeRuneInString_def first_def byte_at_def)
  show c: "Skeleton nfkd_ascii (map_of (makeTables chain_entries)) ''b'' = Inr ''c''"
    by (simp add: makeTables_chain supplementary_def Skeleton_def nfkd_ascii_def
        Skeleton_loop.simps Skeleton_body_def DecodeRuneInString_def first_def byte_at_def)
  show "Skeleton nfkd_ascii (map_of (makeTables chain_entries)) ''b'' \<noteq> Inr ''b''"
    by (simp add: c)
qed

text \<open>
  Claim C2, amended. When NFKD is idempotent and the skeleton of \<open>s\<close> contains no code
  point that is a key of the map, the skeleton of the skeleton of \<open>s\<close> is the skeleton
  of \<open>s\<close>.
\<close>

theorem Skeleton_idempotent_without_keys:
  assumes "\<forall>x. nfkd (nfkd x) = nfkd x"
      and "Skeleton nfkd confusablesMap s = Inr t"
      and "has_no_key confusablesMap t"
  shows "Skeleton nfkd confusablesMap t = Inr t"
proof -
  from assms(2) have t: "t = nfkd (substitute_spec confusablesMap (nfkd s))"
    by (simp add: Skeleton_substitute)
  with assms(1) have "nfkd t = t" by simp
  moreover from assms(3) have "substitute_spec confusablesMap t = t"
    by (rule substitute_spec_no_key)
  ultimately show ?thesis
    by (simp add: Skeleton_substitute)
qed

text \<open>The same table, at the input \<open>b\<close> with the skeleton \<open>c\<close>.\<close>

theorem Skeleton_idempotent_without_keys_witness:
  "(\<forall>x. nfkd_ascii (nfkd_ascii x) = nfkd_ascii x) \<and>
   Skeleton nfkd_ascii (map_of (makeTables chain_entries)) ''b'' = Inr ''c'' \<and>
   has_no_key (map_of (makeTables chain_entries)) ''c'' \<and>
   Skeleton nfkd_ascii (map_of (makeTables chain_entries)) ''c'' = Inr ''c''"
proof -
  have i: "\<forall>x. nfkd_ascii (nfkd_ascii x) = nfkd_ascii x"
    by (simp add: nfkd_ascii_def)
  have s: "Skeleton nfkd_ascii (map_of (makeTables chain_entries)) ''b'' = Inr ''c''"
    by (simp add: makeTables_chain supplementary_def Skeleton_def nfkd_ascii_def
        Skeleton_loop.simps Skeleton_body_def DecodeRuneInString_def first_def byte_at_def)
  have n: "has_no_key (map_of (makeTables chain_entries)) ''c''"
    by (simp add: makeTables_chain supplementary_def has_no_key.simps
        DecodeRuneInString_def first_def byte_at_def)
  from Skeleton_idempotent_without_keys [OF i s n] i s n show ?thesis
    by simp
qed

section \<open>Properties of the parser\<close>

lemma parseTargets_acc:
  "parseTargets ts acc =
     (case parseTargets ts [] of Inl e \<Rightarrow> Inl e | Inr rs \<Rightarrow> Inr (acc @ rs))"
proof (induction ts arbitrary: acc)
  case Nil
  show ?case by simp
next
  case (Cons t ts)
  show ?case
  proof (cases "parsePoint t")
    case (Inl e)
    then show ?thesis by simp
  next
    case (Inr p)
    with Cons.IH [of "acc @ [p]"] Cons.IH [of "[p]"] show ?thesis
      by (simp split: sum.splits)
  qed
qed

lemma parseTargets_map:
  "map parsePoint ts = map Inr rs \<Longrightarrow> parseTargets ts [] = Inr rs"
proof (induction ts arbitrary: rs)
  case Nil
  then show ?case by simp
next
  case (Cons t ts)
  from Cons.prems obtain r rs' where rs: "rs = r # rs'" "parsePoint t = Inr r"
    "map parsePoint ts = map Inr rs'"
    by (cases rs) auto
  from Cons.IH [OF rs(3)] have "parseTargets ts [] = Inr rs'" .
  with rs parseTargets_acc [of ts "[r]"] show ?case by simp
qed

lemma parseTargets_fails:
  "\<exists>t \<in> set ts. isl (parsePoint t) \<Longrightarrow> isl (parseTargets ts acc)"
proof (induction ts arbitrary: acc)
  case Nil
  then show ?case by simp
next
  case (Cons t ts)
  show ?case
  proof (cases "parsePoint t")
    case (Inl e)
    then show ?thesis by simp
  next
    case (Inr p)
    with Cons.prems have "\<exists>t \<in> set ts. isl (parsePoint t)" by auto
    from Cons.IH [OF this] Inr show ?thesis by simp
  qed
qed

lemma character_loop_fails:
  assumes "line \<in> set lines" and "\<And>cs. isl (parseCharacter line cs)"
  shows "isl (character_loop lines cs0)"
  using assms(1)
proof (induction lines arbitrary: cs0)
  case Nil
  then show ?case by simp
next
  case (Cons l ls)
  show ?case
  proof (cases "parseCharacter l cs0")
    case (Inl e)
    then show ?thesis by simp
  next
    case (Inr cs1)
    with assms(2) [of cs0] have "l \<noteq> line" by auto
    with Cons.prems have "line \<in> set ls" by simp
    from Cons.IH [OF this] Inr show ?thesis by simp
  qed
qed

lemma sint_ucast_small:
  fixes x :: "64 word"
  assumes "uint x < 0x80000000"
  shows "sint (ucast x :: 32 word) = uint x"
proof -
  have "uint (ucast x :: 32 word) = take_bit 32 (uint x)"
    by (simp add: unsigned_ucast_eq)
  also have "\<dots> = uint x"
    using assms by (simp add: take_bit_int_eq_self)
  finally have u: "uint (ucast x :: 32 word) = uint x" .
  have "sint (ucast x :: 32 word) = signed_take_bit 31 (uint (ucast x :: 32 word))"
    by (simp add: sint_uint)
  also have "\<dots> = uint x"
  proof -
    have "- (2 ^ 31) \<le> (0::int)" by simp
    also have "(0::int) \<le> uint x" by simp
    finally have "- (2 ^ 31) \<le> uint x" .
    moreover from assms have "uint x < 2 ^ 31" by simp
    ultimately have "signed_take_bit 31 (uint x) = uint x"
      by (rule signed_take_bit_int_eq_self)
    with u show ?thesis by simp
  qed
  finally show ?thesis .
qed

lemma point_violation_fatal: "point_violation s \<Longrightarrow> isl (parsePoint s)"
proof (cases "ParseUint16 s")
  case (Inl e)
  then show ?thesis by (simp add: parsePoint_def)
next
  case (Inr x)
  assume "point_violation s"
  with Inr consider "x = 0" | "0x10FFFF < x" "x < 0x80000000"
    by (auto simp: point_violation_def)
  then show ?thesis
  proof cases
    case 1
    with Inr show ?thesis by (simp add: parsePoint_def)
  next
    case 2
    then have u: "0x10FFFF < uint x" "uint x < 0x80000000"
      by (simp_all add: word_less_def)
    from sint_ucast_small [OF u(2)] have "sint (ucast x :: rune) = uint x" .
    with u have "MaxChar <s (ucast x :: rune)"
      by (simp add: word_sless_alt MaxChar_def)
    with Inr show ?thesis by (simp add: parsePoint_def Let_def)
  qed
qed

lemma line_comment_iff: "line \<noteq> [] \<Longrightarrow> (line ! 0 = CHR ''#'') = prefix ''#'' line"
  by (cases line) auto

text \<open>
  Claim C4 at the input \<open>100000041\<close>: the text is a hexadecimal number above
  \<open>0x10FFFF\<close>, and \<open>parsePoint\<close> returns the rune \<open>0x41\<close>, the low 32 bits of the
  number, where the claim has it abort. At \<open>FFFFFFFF\<close> it returns the rune \<open>-1\<close>.
\<close>

theorem parsePoint_accepts_above_MaxChar:
  "ParseUint16 ''100000041'' = Inr 0x100000041 \<and> parsePoint ''100000041'' = Inr 0x41 \<and>
   parsePoint ''FFFFFFFF'' = Inr (- 1)"
  by (simp add: parsePoint_def ParseUint16_def lower_def MaxChar_def word_le_nat_alt
      word_less_nat_alt word_sless_alt)

text \<open>
  Claim C6, as stated, fails. The line \<open>ZZZZ ; 0041 ; MA\<close> is neither blank nor a
  comment, has three fields and the tag \<open>MA\<close>, and \<open>parseCharacter\<close> produces no
  entry for it: \<open>parsePoint\<close> aborts on its source field.
\<close>

theorem parseCharacter_remaining_line_fails:
  "data_line ''ZZZZ'' ''0041'' ''MA'' \<noteq> [] \<and>
   \<not> prefix ''#'' (data_line ''ZZZZ'' ''0041'' ''MA'') \<and>
   Split (data_line ''ZZZZ'' ''0041'' ''MA'') field_sep = [''ZZZZ'', ''0041'', ''MA''] \<and>
   parseCharacter (data_line ''ZZZZ'' ''0041'' ''MA'') [] = Inl (FatalParse ErrSyntax)"
  by (simp add: data_line_def parseCharacter_def Split.simps field_sep_def NumField_def
      parsePoint_def ParseUint16_def lower_def word_le_nat_alt)

text \<open>
  Claim C6, amended. \<open>parseCharacter\<close> leaves the entries as they are on an empty
  line and on a line that starts with \<open>#\<close>; it aborts when any other line does not
  split into exactly three fields; it leaves the entries as they are when the third
  field does not start with \<open>MA\<close>; on every remaining line it appends exactly one entry,
  the parsed source code point with the parsed target code points in their order, when
  \<open>parsePoint\<close> accepts the source field and every target field, and it aborts when
  \<open>parsePoint\<close> rejects one of them.
\<close>

theorem parseCharacter_cases:
  "(line = [] \<or> prefix ''#'' line \<longrightarrow> parseCharacter line cs = Inr cs) \<and>
   (line \<noteq> [] \<and> \<not> prefix ''#'' line \<and> length (Split line field_sep) \<noteq> 3 \<longrightarrow>
      (\<exists>e. parseCharacter line cs = Inl e)) \<and>
   (line \<noteq> [] \<and> \<not> prefix ''#'' line \<and> length (Split line field_sep) = 3 \<and>
    \<not> prefix ''MA'' (Split line field_sep ! 2) \<longrightarrow>
      parseCharacter line cs = Inr cs) \<and>
   (line \<noteq> [] \<and> \<not> prefix ''#'' line \<and> length (Split line field_sep) = 3 \<and>
    prefix ''MA'' (Split line field_sep ! 2) \<and>
    parsePoint (Split line field_sep ! 0) = Inr sourceRune \<and>
    map parsePoint (Split (Split line field_sep ! 1) '' '') = map Inr targetRune \<longrightarrow>
      parseCharacter line cs = Inr (cs @ [C sourceRune targetRune])) \<and>
   (line \<noteq> [] \<and> \<not> prefix ''#'' line \<and> length (Split line field_sep) = 3 \<and>
    prefix ''MA'' (Split line field_sep ! 2) \<and>
    (isl (parsePoint (Split line field_sep ! 0)) \<or>
     (\<exists>t \<in> set (Split (Split line field_sep ! 1) '' ''). isl (parsePoint t))) \<longrightarrow>
      (\<exists>e. parseCharacter line cs = Inl e))"
proof (intro conjI impI)
  assume "line = [] \<or> prefix ''#'' line"
  then show "parseCharacter line cs = Inr cs"
    by (cases line) (auto simp: parseCharacter_def)
next
  assume "line \<noteq> [] \<and> \<not> prefix ''#'' line \<and> length (Split line field_sep) \<noteq> 3"
  then show "\<exists>e. parseCharacter line cs = Inl e"
    by (simp add: parseCharacter_def line_comment_iff NumField_def)
next
  assume "line \<noteq> [] \<and> \<not> prefix ''#'' line \<and> length (Split line field_sep) = 3 \<and>
    \<not> prefix ''MA'' (Split line field_sep ! 2)"
  then show "parseCharacter line cs = Inr cs"
    by (simp add: parseCharacter_def line_comment_iff NumField_def)
next
  assume a: "line \<noteq> [] \<and> \<not> prefix ''#'' line \<and> length (Split line field_sep) = 3 \<and>
    prefix ''MA'' (Split line field_sep ! 2) \<and>
    parsePoint (Split line field_sep ! 0) = Inr sourceRune \<and>
    map parsePoint (Split (Split line field_sep ! 1) '' '') = map Inr targetRune"
  then have "parseTargets (Split (Split line field_sep ! 1) '' '') [] = Inr targetRune"
    by (simp add: parseTargets_map)
  with a show "parseCharacter line cs = Inr (cs @ [C sourceRune targetRune])"
    by (simp add: parseCharacter_def line_comment_iff NumField_def)
next
  assume a: "line \<noteq> [] \<and> \<not> prefix ''#'' line \<and> length (Split line field_sep) = 3 \<and>
    prefix ''MA'' (Split line field_sep ! 2) \<and>
    (isl (parsePoint (Split line field_sep ! 0)) \<or>
     (\<exists>t \<in> set (Split (Split line field_sep ! 1) '' ''). isl (parsePoint t)))"
  show "\<exists>e. parseCharacter line cs = Inl e"
  proof (cases "parsePoint (Split line field_sep ! 0)")
    case (Inl e)
    with a show ?thesis
      by (simp add: parseCharacter_def line_comment_iff NumField_def)
  next
    case (Inr r)
    with a have "\<exists>t \<in> set (Split (Split line field_sep ! 1) '' ''). isl (parsePoint t)"
      by auto
    from parseTargets_fails [OF this, of "[]"]
    obtain e where "parseTargets (Split (Split line field_sep ! 1) '' '') [] = Inl e"
      by (auto simp: isl_def)
    with a Inr show ?thesis
      by (simp add: parseCharacter_def line_comment_iff NumField_def)
  qed
qed

text \<open>One line for each of the five cases.\<close>

theorem parseCharacter_cases_witness:
  "parseCharacter [] [] = Inr [] \<and>
   parseCharacter ''# comment'' [] = Inr [] \<and>
   (\<exists>e. parseCharacter ''0061 ; 0062 ; MA'' [] = Inl e) \<and>
   parseCharacter (data_line ''ZZZZ'' ''0062'' ''SL'') [] = Inr [] \<and>
   parseCharacter (data_line ''0061'' ''0062 0063'' ''MA'') [] = Inr [C 0x61 [0x62, 0x63]] \<and>
   (\<exists>e. parseCharacter (data_line ''ZZZZ'' ''0041'' ''MA'') [] = Inl e)"
proof (intro conjI)
  show "parseCharacter [] [] = Inr []"
    using parseCharacter_cases [of "[]" "[]"] by simp
  show "parseCharacter ''# comment'' [] = Inr []"
    using parseCharacter_cases [of "''# comment''" "[]"] by simp
  have "Split ''0061 ; 0062 ; MA'' field_sep = [''0061 ; 0062 ; MA'']"
    by (simp add: Split.simps field_sep_def)
  then show "\<exists>e. parseCharacter ''0061 ; 0062 ; MA'' [] = Inl e"
    using parseCharacter_cases [of "''0061 ; 0062 ; MA''" "[]"] by simp
  have "Split (data_line ''ZZZZ'' ''0062'' ''SL'') field_sep = [''ZZZZ'', ''0062'', ''SL'']"
    by (simp add: data_line_def Split.simps field_sep_def)
  then show "parseCharacter (data_line ''ZZZZ'' ''0062'' ''SL'') [] = Inr []"
    using parseCharacter_cases [of "data_line ''ZZZZ'' ''0062'' ''SL''" "[]"]
    by (simp add: data_line_def)
  have f: "Split (data_line ''0061'' ''0062 0063'' ''MA'') field_sep =
             [''0061'', ''0062 0063'', ''MA'']"
    by (simp add: data_line_def Split.simps field_sep_def)
  have p: "parsePoint ''0061'' = Inr 0x61"
    "map parsePoint (Split ''0062 0063'' '' '') = map Inr [0x62, 0x63]"
    by (simp_all add: Split.simps parsePoint_def ParseUint16_def lower_def MaxChar_def
        word_le_nat_alt word_less_nat_alt word_sless_alt)
  from f p show
    "parseCharacter (data_line ''0061'' ''0062 0063'' ''MA'') [] = Inr [C 0x61 [0x62, 0x63]]"
    using parseCharacter_cases
      [of "data_line ''0061'' ''0062 0063'' ''MA''" "[]" "0x61" "[0x62, 0x63]"]
    by (simp add: data_line_def)
  have g: "Split (data_line ''ZZZZ'' ''0041'' ''MA'') field_sep = [''ZZZZ'', ''0041'', ''MA'']"
    by (simp add: data_line_def Split.simps field_sep_def)
  have q: "isl (parsePoint ''ZZZZ'')"
    by (simp add: parsePoint_def ParseUint16_def lower_def word_le_nat_alt)
  from g q show "\<exists>e. parseCharacter (data_line ''ZZZZ'' ''0041'' ''MA'') [] = Inl e"
    using parseCharacter_cases [of "data_line ''ZZZZ'' ''0041'' ''MA''" "[]"]
    by (simp add: data_line_def)
qed

lemma parseCharacter_fails_any:
  assumes "line \<noteq> []" and "\<not> prefix ''#'' line"
      and "length (Split line field_sep) \<noteq> 3 \<or>
           (prefix ''MA'' (Split line field_sep ! 2) \<and>
            (point_violation (Split line field_sep ! 0) \<or>
             (\<exists>t \<in> set (Split (Split line field_sep ! 1) '' ''). point_violation t)))"
  shows "isl (parseCharacter line cs)"
proof (cases "length (Split line field_sep) \<noteq> 3")
  case True
  with assms(1,2) show ?thesis
    by (simp add: parseCharacter_def line_comment_iff NumField_def)
next
  case False
  with assms(3) have ma: "prefix ''MA'' (Split line field_sep ! 2)"
    and pv: "point_violation (Split line field_sep ! 0) \<or>
             (\<exists>t \<in> set (Split (Split line field_sep ! 1) '' ''). point_violation t)"
    by auto
  show ?thesis
  proof (cases "parsePoint (Split line field_sep ! 0)")
    case (Inl e)
    with assms(1,2) False ma show ?thesis
      by (simp add: parseCharacter_def line_comment_iff NumField_def)
  next
    case (Inr r)
    with pv point_violation_fatal [of "Split line field_sep ! 0"]
    have "\<exists>t \<in> set (Split (Split line field_sep ! 1) '' ''). point_violation t"
      by auto
    then have "\<exists>t \<in> set (Split (Split line field_sep ! 1) '' ''). isl (parsePoint t)"
      by (auto dest: point_violation_fatal)
    from parseTargets_fails [OF this, of "[]"]
    obtain e where "parseTargets (Split (Split line field_sep ! 1) '' '') [] = Inl e"
      by (auto simp: isl_def)
    with assms(1,2) False ma Inr show ?thesis
      by (simp add: parseCharacter_def line_comment_iff NumField_def)
  qed
qed

text \<open>
  Claim C5, as stated, fails. The data file of an empty line and the line
  \<open>ZZZZ ; 0041 ; SL\<close> has a source field that is no hexadecimal number, on a line whose
  tag does not start with \<open>MA\<close>; no call of \<open>log.Fatalf\<close> is reached while the file
  is loaded, the line is skipped, and the table made is that of the supplementary
  entries.
\<close>

theorem violation_on_other_class_not_fatal:
  "point_violation ''ZZZZ'' \<and>
   Split (data_line ''ZZZZ'' ''0041'' ''SL'') field_sep = [''ZZZZ'', ''0041'', ''SL''] \<and>
   parseCharacter (data_line ''ZZZZ'' ''0041'' ''SL'') [] = Inr [] \<and>
   loadUnicodeData [[], data_line ''ZZZZ'' ''0041'' ''SL''] = Inr (originalHeader_init, []) \<and>
   makeTables [] = supplementary"
  by (simp add: point_violation_def loadUnicodeData_def parseHeader_def makeTables_append
      parseCharacter_def data_line_def Split.simps field_sep_def NumField_def
      ParseUint16_def lower_def word_le_nat_alt)

text \<open>
  Claim C5, amended. On every line behind the line that ends the header that is neither
  blank nor a comment, a number of fields other than three, and on such a line whose tag
  starts with \<open>MA\<close> a source or target field that is unparsable, zero, or above
  \<open>0x10FFFF\<close> and below \<open>2^31\<close>, aborts the build while the file is loaded:
  \<open>loadUnicodeData\<close> does not return, and \<open>main\<close> returns no table, whatever
  \<open>format.Source\<close> does.
\<close>

theorem violation_on_parsed_line_fatal:
  assumes "line \<in> set (fst (header_loop lines originalHeader_init))"
      and "line \<noteq> []" and "\<not> prefix ''#'' line"
      and "length (Split line field_sep) \<noteq> 3 \<or>
           (prefix ''MA'' (Split line field_sep ! 2) \<and>
            (point_violation (Split line field_sep ! 0) \<or>
             (\<exists>t \<in> set (Split (Split line field_sep ! 1) '' ''). point_violation t)))"
  shows "(\<exists>e. loadUnicodeData lines = Inl e) \<and> (\<exists>e. main format_Source lines = Inl e)"
proof -
  obtain rest h where hl: "header_loop lines originalHeader_init = (rest, h)"
    by (cases "header_loop lines originalHeader_init")
  with assms(1) have "line \<in> set rest" by simp
  moreover have "\<And>cs. isl (parseCharacter line cs)"
    using assms(2-4) by (rule parseCharacter_fails_any)
  ultimately have "isl (character_loop rest [])"
    by (rule character_loop_fails)
  then obtain e where "character_loop rest [] = Inl e"
    by (auto simp: isl_def)
  with hl have "loadUnicodeData lines = Inl e"
    by (simp add: loadUnicodeData_def)
  then show ?thesis
    by (simp add: main_def)
qed

text \<open>The data file \<open>bad_data\<close>, at its last line.\<close>

theorem violation_on_parsed_line_fatal_witness:
  "data_line ''0062'' ''110000'' ''MA'' \<in> set (fst (header_loop bad_data originalHeader_init)) \<and>
   Split (data_line ''0062'' ''110000'' ''MA'') field_sep = [''0062'', ''110000'', ''MA''] \<and>
   point_violation ''110000'' \<and>
   (\<exists>e. loadUnicodeData bad_data = Inl e) \<and>
   (\<forall>format_Source. \<exists>e. main format_Source bad_data = Inl e)"
proof -
  have m: "data_line ''0062'' ''110000'' ''MA'' \<in> set (fst (header_loop bad_data originalHeader_init))"
    by (simp add: bad_data_def parseHeader_def BOM_def)
  have n: "data_line ''0062'' ''110000'' ''MA'' \<noteq> []"
    "\<not> prefix ''#'' (data_line ''0062'' ''110000'' ''MA'')"
    by (simp_all add: data_line_def)
  have f: "Split (data_line ''0062'' ''110000'' ''MA'') field_sep = [''0062'', ''110000'', ''MA'']"
    by (simp add: data_line_def Split.simps field_sep_def)
  have s: "Split ''110000'' '' '' = [''110000'']"
    by (simp add: Split.simps)
  have p: "point_violation ''110000''"
    by (simp add: point_violation_def ParseUint16_def lower_def word_le_nat_alt word_less_nat_alt)
  have "length (Split (data_line ''0062'' ''110000'' ''MA'') field_sep) \<noteq> 3 \<or>
        (prefix ''MA'' (Split (data_line ''0062'' ''110000'' ''MA'') field_sep ! 2) \<and>
         (point_violation (Split (data_line ''0062'' ''110000'' ''MA'') field_sep ! 0) \<or>
          (\<exists>t \<in> set (Split (Split (data_line ''0062'' ''110000'' ''MA'') field_sep ! 1) '' '').
             point_violation t)))"
    using f s p by simp
  from violation_on_parsed_line_fatal [OF m n this]
  have "(\<exists>e. loadUnicodeData bad_data = Inl e) \<and>
        (\<forall>format_Source. \<exists>e. main format_Source bad_data = Inl e)"
    by blast
  with m f p show ?thesis
    by simp
qed

section \<open>The header of the data file\<close>





section \<open>The override rules and the supplementary entries\<close>

lemma Index_None_iff:
  "sub \<noteq> [] \<Longrightarrow> (Index s sub = None) = (\<forall>i. \<not> prefix sub (drop i s))"
proof (induction s)
  case Nil
  then show ?case by simp
next
  case (Cons c s)
  have "(\<forall>i. \<not> prefix sub (drop i (c # s))) =
          (\<not> prefix sub (c # s) \<and> (\<forall>i. \<not> prefix sub (drop i s)))"
  proof
    assume a: "\<forall>i. \<not> prefix sub (drop i (c # s))"
    from a [rule_format, of 0] have "\<not> prefix sub (c # s)" by simp
    moreover have "\<forall>i. \<not> prefix sub (drop i s)"
    proof
      fix i
      from a [rule_format, of "Suc i"] show "\<not> prefix sub (drop i s)" by simp
    qed
    ultimately show "\<not> prefix sub (c # s) \<and> (\<forall>i. \<not> prefix sub (drop i s))" by simp
  next
    assume a: "\<not> prefix sub (c # s) \<and> (\<forall>i. \<not> prefix sub (drop i s))"
    show "\<forall>i. \<not> prefix sub (drop i (c # s))"
    proof
      fix i
      from a show "\<not> prefix sub (drop i (c # s))" by (cases i) simp_all
    qed
  qed
  with Cons show ?case by simp
qed

lemma Index_Some:
  "Index s sub = Some j \<Longrightarrow> prefix sub (drop j s) \<and> (\<forall>i<j. \<not> prefix sub (drop i s))"
proof (induction s arbitrary: j)
  case Nil
  then show ?case by (simp split: if_splits)
next
  case (Cons c s)
  show ?case
  proof (cases "prefix sub (c # s)")
    case True
    with Cons.prems show ?thesis by simp
  next
    case False
    with Cons.prems obtain j' where j: "Index s sub = Some j'" "j = Suc j'" by auto
    from Cons.IH [OF j(1)] have p: "prefix sub (drop j' s)"
      and f: "\<forall>i<j'. \<not> prefix sub (drop i s)" by simp_all
    have "\<forall>i<j. \<not> prefix sub (drop i (c # s))"
    proof (intro allI impI)
      fix i assume "i < j"
      with j(2) f False show "\<not> prefix sub (drop i (c # s))" by (cases i) simp_all
    qed
    with p j(2) show ?thesis by simp
  qed
qed

lemma drop_take_prefix: "prefix (drop i (take j s)) (drop i s)"
  by (simp add: drop_take take_is_prefix)

lemma Replace_removes_old:
  assumes "new \<noteq> []" and "set new \<inter> set (c # old) = {}"
  shows "Index (Replace s (c # old) new) (c # old) = None"
  using assms
proof (induction s "c # old" new rule: Replace.induct)
  case (1 s new)
  let ?sub = "c # old"
  show ?case
  proof (cases "Index s ?sub")
    case None
    then show ?thesis by (subst Replace.simps) simp
  next
    case (Some j)
    let ?R' = "Replace (drop (j + length ?sub) s) ?sub new"
    from "1.hyps" [OF Some "1.prems"] have "Index ?R' ?sub = None" .
    then have ih: "\<And>i. \<not> prefix ?sub (drop i ?R')"
      by (simp add: Index_None_iff)
    from Index_Some [OF Some] have first: "\<And>i. i < j \<Longrightarrow> \<not> prefix ?sub (drop i s)"
      by simp
    from Index_bound [OF Some] have jl: "j \<le> length s" by simp
    have R: "Replace s ?sub new = take j s @ new @ ?R'"
      using Some by (subst Replace.simps) simp
    have "\<not> prefix ?sub (drop i (take j s @ new @ ?R'))" for i
    proof
      assume p: "prefix ?sub (drop i (take j s @ new @ ?R'))"
      consider "i < j" | "j \<le> i" "i < j + length new" | "j + length new \<le> i" by linarith
      then show False
      proof cases
        case 1
        let ?u = "drop i (take j s)"
        from 1 jl have d: "drop i (take j s @ new @ ?R') = ?u @ new @ ?R'"
          by simp
        from p have "prefix ?sub (?u @ (new @ ?R'))"
          unfolding d .
        then have "prefix ?sub ?u \<or> (\<exists>us. ?sub = ?u @ us \<and> prefix us (new @ ?R'))"
          by (rule prefix_append [THEN iffD1])
        then show False
        proof
          assume "prefix ?sub ?u"
          moreover have "prefix ?u (drop i s)"
            by (rule drop_take_prefix)
          ultimately have "prefix ?sub (drop i s)" by (rule prefix_order.trans)
          with first [OF 1] show False by simp
        next
          assume "\<exists>us. ?sub = ?u @ us \<and> prefix us (new @ ?R')"
          then obtain us where us: "?sub = ?u @ us" "prefix us (new @ ?R')" by blast
          show False
          proof (cases us)
            case Nil
            with us have "prefix ?sub ?u" by simp
            moreover have "prefix ?u (drop i s)"
              by (rule drop_take_prefix)
            ultimately have "prefix ?sub (drop i s)" by (rule prefix_order.trans)
            with first [OF 1] show False by simp
          next
            case (Cons a us')
            with us(2) "1.prems"(1) have "a = hd new"
              by (cases new) (auto simp: prefix_Cons)
            with "1.prems"(1) have "a \<in> set new" by simp
            moreover from us(1) Cons have "a \<in> set ?sub"
              by (metis in_set_conv_decomp)
            ultimately show False using "1.prems"(2) by blast
          qed
        qed
      next
        case 2
        with jl have "drop i (take j s @ new @ ?R') = drop (i - j) new @ ?R'"
          by simp
        moreover from 2 obtain a as where "drop (i - j) new = a # as"
          by (cases "drop (i - j) new") auto
        moreover from this have "a \<in> set new"
          by (metis in_set_dropD list.set_intros(1))
        ultimately have "a = c" using p by simp
        with \<open>a \<in> set new\<close> "1.prems"(2) show False by auto
      next
        case 3
        with jl have "drop i (take j s @ new @ ?R') = drop (i - j - length new) ?R'"
          by simp
        with p ih show False by simp
      qed
    qed
    with R show ?thesis by (simp add: Index_None_iff)
  qed
qed

text \<open>
  Claim C3. The loop of \<open>makeTables\<close> writes, for the entries in their order, what the
  ordered first-match rules of the specification give (\<open>buildMap_spec\<close>): the first of
  the rules \<open>rn\<close>, pi, mu, chi, small capital R, ko whose substring occurs in the decoded
  target decides and no later rule is applied; the entry is dropped when the rule is
  \<open>rn\<close> and the source decodes to \<open>m\<close>; the target is written unchanged when no
  rule matches. The replacement of \<open>rn\<close> by \<open>m\<close> leaves no occurrence of \<open>rn\<close>.
\<close>

theorem makeTables_loop_first_match:
  "makeTables_loop confusables out = out @ buildMap_spec confusables \<and>
   \<not> Contains (Replace target ''rn'' ''m'') ''rn''"
proof
  show "makeTables_loop confusables out = out @ buildMap_spec confusables"
  proof (induction confusables arbitrary: out)
    case Nil
    show ?case by (simp add: buildMap_spec_def)
  next
    case (Cons c cs)
    have "str_pi \<noteq> ''rn''" "str_mu \<noteq> ''rn''" "str_chi \<noteq> ''rn''"
      "str_small_capital_R \<noteq> ''rn''" "str_ethiopic_ko \<noteq> ''rn''"
      by (simp_all add: str_pi_def str_mu_def str_chi_def str_small_capital_R_def
          str_ethiopic_ko_def)
    then have "makeTables_loop (c # cs) out = makeTables_loop cs (out @ buildMap_entry_spec c)"
      by (simp add: buildMap_entry_spec_def override_rules_def emit_def Let_def)
    also have "\<dots> = (out @ buildMap_entry_spec c) @ buildMap_spec cs"
      by (rule Cons.IH)
    also have "\<dots> = out @ buildMap_spec (c # cs)"
      by (simp add: buildMap_spec_def)
    finally show ?case .
  qed
  have "Index (Replace target ''rn'' ''m'') ''rn'' = None"
    by (rule Replace_removes_old) simp_all
  then show "\<not> Contains (Replace target ''rn'' ''m'') ''rn''"
    by (simp add: Contains_def)
qed

text \<open>
  The rules at work: the entry of the source \<open>m\<close> with the target \<open>rn\<close> is dropped; a
  target with \<open>rn\<close> and pi keeps its pi; a target with pi and mu keeps its mu.
\<close>

lemma makeTables_loop_example:
  "makeTables_loop [C 0x6D [0x72, 0x6E], C 0x78 [0x72, 0x6E, 0x3C0], C 0x79 [0x3C0, 0x3BC]] [] =
     [(0x78, ''m'' @ str_pi), (0x79, ''n'' @ str_mu)]"
  by code_simp

text \<open>
  Claim C7. For every list of parsed entries, \<open>makeTables\<close> writes the 31 supplementary
  entries of the source behind everything the loop has written; among them are the
  fullwidth \<open>D\<close> (\<open>U+FF24\<close>) with \<open>D\<close>, the runic \<open>U+16B1\<close> with \<open>R\<close> and pi
  (\<open>U+03C0\<close>) with \<open>n\<close>; and every table made of the entries written maps each
  supplementary key to its replacement.
\<close>

theorem supplementary_appended:
  "makeTables confusables = makeTables_loop confusables [] @ supplementary \<and>
   length supplementary = 31 \<and>
   (0xFF24, ''D'') \<in> set (makeTables confusables) \<and>
   (0x16B1, ''R'') \<in> set (makeTables confusables) \<and>
   (0x03C0, ''n'') \<in> set (makeTables confusables) \<and>
   (\<forall>m. confusablesMap_of (makeTables confusables) = Some m \<longrightarrow>
      (\<forall>(key, q) \<in> set supplementary. m key = Some q))"
proof (intro conjI allI impI)
  show a: "makeTables confusables = makeTables_loop confusables [] @ supplementary"
    by (rule makeTables_append)
  show "length supplementary = 31"
    by (simp add: supplementary_def)
  have "(0xFF24, ''D'') \<in> set supplementary" "(0x16B1, ''R'') \<in> set supplementary"
    "(0x03C0, ''n'') \<in> set supplementary"
    by (simp_all add: supplementary_def)
  with a show "(0xFF24, ''D'') \<in> set (makeTables confusables)"
    "(0x16B1, ''R'') \<in> set (makeTables confusables)"
    "(0x03C0, ''n'') \<in> set (makeTables confusables)"
    by simp_all
next
  fix m
  assume "confusablesMap_of (makeTables confusables) = Some m"
  then have d: "distinct (map fst (makeTables confusables))"
    and m: "m = map_of (makeTables confusables)"
    by (simp_all add: confusablesMap_of_def split: if_splits)
  show "\<forall>(key, q) \<in> set supplementary. m key = Some q"
  proof (clarify)
    fix key q
    assume "(key, q) \<in> set supplementary"
    then have "(key, q) \<in> set (makeTables confusables)"
      by (simp add: makeTables_append)
    with d m show "m key = Some q" by simp
  qed
qed

text \<open>The table built from \<open>chain_entries\<close>.\<close>

theorem supplementary_appended_witness:
  "confusablesMap_of (makeTables chain_entries) = Some (map_of (makeTables chain_entries)) \<and>
   (0xFF24, ''D'') \<in> set supplementary \<and>
   map_of (makeTables chain_entries) 0xFF24 = Some ''D'' \<and>
   map_of (makeTables chain_entries) 0x16B1 = Some ''R'' \<and>
   map_of (makeTables chain_entries) 0x03C0 = Some ''n''"
proof -
  have c: "confusablesMap_of (makeTables chain_entries) = Some (map_of (makeTables chain_entries))"
    by (simp add: confusablesMap_of_def makeTables_chain supplementary_def)
  have s: "(0xFF24, ''D'') \<in> set supplementary" "(0x16B1, ''R'') \<in> set supplementary"
    "(0x03C0, ''n'') \<in> set supplementary"
    by (simp_all add: supplementary_def)
  from supplementary_appended [of chain_entries] c
  have "\<forall>(key, q) \<in> set supplementary. map_of (makeTables chain_entries) key = Some q"
    by blast
  with s c show ?thesis by blast
qed

end
